theory Spec2Isabelle
  imports Complex_Main "HOL-Library.Char_ord" "HOL-Library.List_Lexorder"
    "HOL-Library.Product_Lexorder" "HOL-Library.Sublist"
begin

section \<open>Conventions of the embedding\<close>

text \<open>
  The development embeds the reconciliation and currency-normalisation code of the
  flask-server package (\<^verbatim>\<open>cleaning_configurations.py\<close>, \<^verbatim>\<open>clean_sales.py\<close>,
  \<^verbatim>\<open>clean_oe.py\<close>).

  \<^item> A Python \<^verbatim>\<open>float\<close> is a \<^typ>\<open>real\<close>: arithmetic is exact, there is no NaN and no
    rounding. Division by zero is written out as the \<^verbatim>\<open>ZeroDivisionError\<close> Python raises.
  \<^item> A Python \<^verbatim>\<open>str\<close> is a \<^typ>\<open>string\<close>; case folding and stripping act on ASCII.
  \<^item> A dictionary that the code only looks keys up in is a map; a dictionary the code
    iterates over is an association list in insertion order.
  \<^item> A pandas table is the list of its rows, each row a record of the columns the code
    reads, after the coercions the code applies (\<^verbatim>\<open>astype(str)\<close>,
    \<^verbatim>\<open>to_numeric(...).fillna(0)\<close>).
  \<^item> An exception is a value: every \<^verbatim>\<open>raise\<close> and every \<^verbatim>\<open>except\<close> branch of the source is
    a branch of the model.
\<close>

section \<open>Strings\<close>

definition lower_char :: "char \<Rightarrow> char" where
  "lower_char c =
     (if CHR ''A'' \<le> c \<and> c \<le> CHR ''Z'' then char_of (of_char c + (32::nat)) else c)"

definition lower :: "string \<Rightarrow> string" where
  "lower s = map lower_char s"

definition upper_char :: "char \<Rightarrow> char" where
  "upper_char c =
     (if CHR ''a'' \<le> c \<and> c \<le> CHR ''z'' then char_of (of_char c - (32::nat)) else c)"

definition upper :: "string \<Rightarrow> string" where
  "upper s = map upper_char s"

definition is_space :: "char \<Rightarrow> bool" where
  "is_space c = (c \<in> set [CHR '' '', CHR 0x09, CHR 0x0A, CHR 0x0B, CHR 0x0C, CHR 0x0D])"

definition strip :: "string \<Rightarrow> string" where
  "strip s = rev (dropWhile is_space (rev (dropWhile is_space s)))"

fun starts_with :: "string \<Rightarrow> string \<Rightarrow> bool" where
  "starts_with [] s = True"
| "starts_with (p # ps) [] = False"
| "starts_with (p # ps) (c # cs) = (p = c \<and> starts_with ps cs)"

text \<open>\<^verbatim>\<open>s.endswith(suffix)\<close>.\<close>

definition ends_with :: "string \<Rightarrow> string \<Rightarrow> bool" where
  "ends_with suf s = starts_with (rev suf) (rev s)"

text \<open>\<^verbatim>\<open>p in s\<close> on strings: \<open>p\<close> occurs in \<open>s\<close> as a contiguous run.\<close>

fun str_in :: "string \<Rightarrow> string \<Rightarrow> bool" where
  "str_in p [] = (p = [])"
| "str_in p (c # cs) = (starts_with p (c # cs) \<or> str_in p cs)"

text \<open>\<^verbatim>\<open>s.replace(a, b)\<close> for a one-character \<open>a\<close>.\<close>

definition replace_char :: "char \<Rightarrow> string \<Rightarrow> string \<Rightarrow> string" where
  "replace_char a b s = concat (map (\<lambda>c. if c = a then b else [c]) s)"

section \<open>Cross rates\<close>

text \<open>
  \<^verbatim>\<open>get_cross_rates\<close> (\<^verbatim>\<open>clean_sales.py\<close> lines 131-159 and, with the same body,
  \<^verbatim>\<open>clean_oe.py\<close> lines 174-196). The rates dictionary is what \<^verbatim>\<open>load_currency_rates\<close>
  returns: currency code to the two rates of the period.

  The body reads the target currency first, then the source currency; a missing key
  raises \<^verbatim>\<open>KeyError\<close> with the key as argument. The current-period quotient is computed
  before the prior-period one. Each \<^verbatim>\<open>except\<close> branch prints a report and returns
  \<^verbatim>\<open>(None, None)\<close>: the report is the \<open>Inl\<close> value of the model.
\<close>

record rate_entry =
  Current_Year_Rate :: real
  Prev_Year_Rate :: real

datatype conversion_error = KeyError string | ZeroDivisionError string

definition get_cross_rates ::
  "string \<Rightarrow> string \<Rightarrow> (string \<rightharpoonup> rate_entry) \<Rightarrow> conversion_error + real \<times> real" where
  "get_cross_rates source_curr target_curr rates_dict =
     (case rates_dict target_curr of
        None \<Rightarrow> Inl (KeyError target_curr)
      | Some target_rate \<Rightarrow>
          (case rates_dict source_curr of
             None \<Rightarrow> Inl (KeyError source_curr)
           | Some source_rate \<Rightarrow>
               if Current_Year_Rate source_rate = 0 then Inl (ZeroDivisionError source_curr)
               else if Prev_Year_Rate source_rate = 0 then Inl (ZeroDivisionError source_curr)
               else Inr (Current_Year_Rate target_rate / Current_Year_Rate source_rate,
                         Prev_Year_Rate target_rate / Prev_Year_Rate source_rate)))"

text \<open>The Python value the caller receives: a pair of floats, or \<^verbatim>\<open>(None, None)\<close>.\<close>

definition returned_tuple :: "conversion_error + real \<times> real \<Rightarrow> real option \<times> real option" where
  "returned_tuple r = (case r of Inl e \<Rightarrow> (None, None) | Inr (c, p) \<Rightarrow> (Some c, Some p))"

text \<open>
  The caller in \<^verbatim>\<open>process_files_to_csv\<close> and \<^verbatim>\<open>process_excel_files\<close>: the factors
  stay at 1.0 when the first component is \<^verbatim>\<open>None\<close>.
\<close>

definition rates_or_default :: "real option \<times> real option \<Rightarrow> real \<times> real" where
  "rates_or_default rates =
     (case rates of (Some c, Some p) \<Rightarrow> (c, p) | _ \<Rightarrow> (1, 1))"

section \<open>Reconciliation against the Hyperion extract\<close>

text \<open>
  \<^verbatim>\<open>df.groupby(key)[[a, b]].sum()\<close> turned into a dictionary: the keys are the key values
  that occur in the table, the value of a key is the pair of column sums over its rows.
\<close>

definition groupby_sum :: "('r \<Rightarrow> 'k) \<Rightarrow> ('r \<Rightarrow> real) \<Rightarrow> 'r list \<Rightarrow> 'k \<Rightarrow> real" where
  "groupby_sum key col rows k = sum_list (map col (filter (\<lambda>r. key r = k) rows))"





subsection \<open>Sales: \<^verbatim>\<open>generate_sales_validation_data\<close>, comparison stage\<close>





subsection \<open>Order entry: \<^verbatim>\<open>generate_oe_validation_data\<close>, comparison stage\<close>












subsection \<open>Period expense: \<^verbatim>\<open>generate_pex_validation_data\<close>, comparison stage\<close>




subsection \<open>Adjustment rows: \<^verbatim>\<open>add_hyperion_adjustments\<close>\<close>





section \<open>Entity directory: \<^verbatim>\<open>load_directory_info\<close> of \<^verbatim>\<open>clean_oe.py\<close>\<close>

text \<open>
  A row of the directory workbook with the six required columns. A cell is \<open>None\<close> when
  pandas reads it as NaN, and otherwise the text of the cell.
\<close>

record dir_row =
  Comp_No :: "string option"
  Comp_No_for_OE :: "string option"
  Entity_Type :: "string option"
  SAP_Comp_Code :: "string option"
  Original_Currency :: "string option"
  Conversion_Currency :: "string option"

text \<open>\<^verbatim>\<open>astype(str)\<close> on a cell: NaN becomes the text \<^verbatim>\<open>nan\<close>.\<close>

definition astype_str :: "string option \<Rightarrow> string" where
  "astype_str cell = (case cell of None \<Rightarrow> ''nan'' | Some s \<Rightarrow> s)"

text \<open>
  A row of \<^verbatim>\<open>df_currencies\<close>: the compound key (Comp_No_for_OE, SAP_Comp_Code) and the
  currency pair (Original Currency, Conversion Currency).
\<close>

type_synonym currency_row = "(string \<times> string) \<times> (string \<times> string)"

text \<open>Lines 71-75: the four columns, rows with a NaN in one of them dropped.\<close>

fun df_currencies :: "dir_row list \<Rightarrow> currency_row list" where
  "df_currencies [] = []"
| "df_currencies (r # rows) =
     (case (Comp_No_for_OE r, SAP_Comp_Code r, Original_Currency r, Conversion_Currency r) of
        (Some oe, Some sap, Some orig, Some conv) \<Rightarrow> ((oe, sap), (orig, conv)) # df_currencies rows
      | _ \<Rightarrow> df_currencies rows)"

text \<open>\<^verbatim>\<open>drop_duplicates()\<close>: the first occurrence of each row is kept, in order.\<close>

fun drop_duplicates :: "'a list \<Rightarrow> 'a list" where
  "drop_duplicates [] = []"
| "drop_duplicates (x # xs) = x # drop_duplicates (filter (\<lambda>y. y \<noteq> x) xs)"

text \<open>
  \<^verbatim>\<open>duplicated(subset=key_cols, keep=False)\<close>: the rows whose key occurs in more than one
  row of the table.
\<close>

definition duplicated :: "currency_row list \<Rightarrow> currency_row list" where
  "duplicated df = filter (\<lambda>r. length (filter (\<lambda>r'. fst r' = fst r) df) > 1) df"

text \<open>\<^verbatim>\<open>drop_duplicates(subset=[key])\<close>: the first row of each key is kept.\<close>

fun drop_duplicates_on :: "('a \<Rightarrow> 'k) \<Rightarrow> 'a list \<Rightarrow> 'a list" where
  "drop_duplicates_on key [] = []"
| "drop_duplicates_on key (x # xs) =
     x # drop_duplicates_on key (filter (\<lambda>y. key y \<noteq> key x) xs)"

text \<open>Lines 98-107: the rows with both codes present, stripped.\<close>

fun df_map :: "dir_row list \<Rightarrow> (string \<times> string) list" where
  "df_map [] = []"
| "df_map (r # rows) =
     (case (Comp_No r, Comp_No_for_OE r) of
        (Some c, Some oe) \<Rightarrow> (strip c, strip oe) # df_map rows
      | _ \<Rightarrow> df_map rows)"

datatype load_error =
    Read_failed
  | Missing_columns
  | Conflicting_currency_data "currency_row list"

definition required_cols :: "string list" where
  "required_cols = [''Comp_No'', ''Comp_No_for_OE'', ''Type'', ''SAP_Comp_Code'',
                    ''Original Currency'', ''Conversion Currency'']"

text \<open>
  The function. Its argument is what \<^verbatim>\<open>pd.read_excel\<close> gave: \<open>None\<close> when the file is
  missing or unreadable, otherwise the column names and the rows. Every failure returns
  \<^verbatim>\<open>(None, None, None)\<close>, the \<open>Inl\<close> of the model, which carries what the function
  prints. On success the three results are the Comp_No_for_OE values of the MO and MOPO
  entities (a Python set, here without repetitions), the currency dictionary and the
  Comp_No to Comp_No_for_OE dictionary, both in insertion order.
\<close>

definition load_directory_info ::
  "(string list \<times> dir_row list) option
     \<Rightarrow> load_error + string list \<times> currency_row list \<times> (string \<times> string) list" where
  "load_directory_info read_excel =
     (case read_excel of
        None \<Rightarrow> Inl Read_failed
      | Some (columns, df_dir) \<Rightarrow>
          if \<not> (\<forall>col \<in> set required_cols. col \<in> set columns) then Inl Missing_columns
          else
            let filtered_dir =
                  filter (\<lambda>r. str_in ''MO'' (astype_str (Entity_Type r))
                             \<or> str_in ''MOPO'' (astype_str (Entity_Type r))) df_dir;
                comp_numbers_to_process =
                  remdups (map (\<lambda>r. astype_str (Comp_No_for_OE r)) filtered_dir);
                deduplicated = drop_duplicates (df_currencies df_dir);
                duplicates = duplicated deduplicated
            in if duplicates \<noteq> []
               then Inl (Conflicting_currency_data (sort_key fst duplicates))
               else Inr (comp_numbers_to_process, deduplicated,
                         drop_duplicates_on fst (df_map df_dir)))"

section \<open>Duplicate output files: \<^verbatim>\<open>remove_duplicate_files\<close>\<close>

text \<open>
  The disk is a map from paths to file contents. \<^verbatim>\<open>os.path.join(folder, name)\<close> on a
  POSIX system: an absolute name replaces the folder, otherwise the name follows the
  folder and one separator.
\<close>

definition path_join :: "string \<Rightarrow> string \<Rightarrow> string" where
  "path_join folder name =
     (if starts_with ''/'' name then name
      else if folder = [] \<or> ends_with ''/'' folder then folder @ name
      else folder @ ''/'' @ name)"

text \<open>
  \<^verbatim>\<open>_get_file_content_hash\<close> (lines 1680-1719). \<open>read_and_hash\<close> stands for reading the
  table, sorting its columns and rows, printing it and taking the MD5 digest of the text;
  it is \<open>None\<close> when one of these steps raises. A file that is neither CSV nor XLSX, a
  file that is not there and a file that cannot be read or hashed get their own path.
\<close>

definition get_file_content_hash ::
  "(string \<Rightarrow> 'c \<Rightarrow> string option) \<Rightarrow> (string \<rightharpoonup> 'c) \<Rightarrow> string \<Rightarrow> string" where
  "get_file_content_hash read_and_hash disk file_path =
     (if ends_with ''.csv'' file_path \<or> ends_with ''.xlsx'' file_path
      then (case disk file_path of
              None \<Rightarrow> file_path
            | Some content \<Rightarrow>
                (case read_and_hash file_path content of
                   None \<Rightarrow> file_path
                 | Some digest \<Rightarrow> digest))
      else file_path)"

text \<open>
  The first loop (lines 1731-1748), with its three variables as the state:
  \<^verbatim>\<open>content_map\<close>, \<^verbatim>\<open>files_to_keep\<close>, \<^verbatim>\<open>files_to_remove\<close>.
\<close>

fun scan_files ::
  "(string \<Rightarrow> 'c \<Rightarrow> string option) \<Rightarrow> (string \<rightharpoonup> 'c) \<Rightarrow> string \<Rightarrow> string list
     \<Rightarrow> (string \<rightharpoonup> string) \<times> string list \<times> string list
     \<Rightarrow> (string \<rightharpoonup> string) \<times> string list \<times> string list" where
  "scan_files read_and_hash disk output_folder [] state = state"
| "scan_files read_and_hash disk output_folder (filename # rest)
       (content_map, files_to_keep, files_to_remove) =
     (let file_path = path_join output_folder filename
      in if disk file_path = None
         then scan_files read_and_hash disk output_folder rest
                (content_map, files_to_keep, files_to_remove)
         else
           let file_hash = get_file_content_hash read_and_hash disk file_path
           in if content_map file_hash \<noteq> None
              then scan_files read_and_hash disk output_folder rest
                     (content_map, files_to_keep, files_to_remove @ [filename])
              else scan_files read_and_hash disk output_folder rest
                     (content_map(file_hash \<mapsto> filename), files_to_keep @ [filename],
                      files_to_remove))"

text \<open>
  The second loop (lines 1758-1765): \<^verbatim>\<open>os.remove\<close> takes the path off the disk; when the
  path is not there it raises, and the exception is caught.
\<close>

fun remove_files :: "string \<Rightarrow> string list \<Rightarrow> (string \<rightharpoonup> 'c) \<Rightarrow> (string \<rightharpoonup> 'c)" where
  "remove_files output_folder [] disk = disk"
| "remove_files output_folder (filename # rest) disk =
     remove_files output_folder rest (disk(path_join output_folder filename := None))"

text \<open>The function returns the list of names; the model returns the disk it leaves as well.\<close>

definition remove_duplicate_files ::
  "(string \<Rightarrow> 'c \<Rightarrow> string option) \<Rightarrow> (string \<rightharpoonup> 'c) \<Rightarrow> string \<Rightarrow> string list
     \<Rightarrow> string list \<times> (string \<rightharpoonup> 'c)" where
  "remove_duplicate_files read_and_hash disk output_folder processed_files =
     (case scan_files read_and_hash disk output_folder processed_files (Map.empty, [], []) of
        (content_map, files_to_keep, files_to_remove) \<Rightarrow>
          if files_to_remove = [] then (processed_files, disk)
          else (files_to_keep, remove_files output_folder files_to_remove disk))"

section \<open>Predicates used to state the properties\<close>






text \<open>
  A row of the currency table conflicts when another row has its compound key and a
  different currency pair.
\<close>

definition conflicting :: "currency_row list \<Rightarrow> currency_row \<Rightarrow> bool" where
  "conflicting df r = (\<exists>r' \<in> set df. fst r' = fst r \<and> snd r' \<noteq> snd r)"

section \<open>Properties of the cross rates\<close>

text \<open>
  C5. \<^verbatim>\<open>get_cross_rates\<close> reports a conversion error instead of raising: a missing
  target or source currency gives a report naming a currency code that is absent from
  the table, a zero source rate (current or prior period) gives the division-by-zero
  report, and in each of these cases the caller receives \<^verbatim>\<open>(None, None)\<close>. The model is a
  total function into a sum type, so no exception leaves it.
\<close>

theorem get_cross_rates_reports_error:
  "(rates_dict target_curr = None \<longrightarrow>
      get_cross_rates source_curr target_curr rates_dict = Inl (KeyError target_curr)) \<and>
   (rates_dict target_curr \<noteq> None \<and> rates_dict source_curr = None \<longrightarrow>
      get_cross_rates source_curr target_curr rates_dict = Inl (KeyError source_curr)) \<and>
   (\<forall>t s. rates_dict target_curr = Some t \<and> rates_dict source_curr = Some s
        \<and> (Current_Year_Rate s = 0 \<or> Prev_Year_Rate s = 0) \<longrightarrow>
      get_cross_rates source_curr target_curr rates_dict = Inl (ZeroDivisionError source_curr)) \<and>
   ((rates_dict target_curr = None \<or> rates_dict source_curr = None
       \<or> (\<exists>s. rates_dict source_curr = Some s
             \<and> (Current_Year_Rate s = 0 \<or> Prev_Year_Rate s = 0))) \<longrightarrow>
      returned_tuple (get_cross_rates source_curr target_curr rates_dict) = (None, None)
      \<and> rates_or_default (returned_tuple (get_cross_rates source_curr target_curr rates_dict))
          = (1, 1))"
  by (auto simp: get_cross_rates_def returned_tuple_def rates_or_default_def
      split: option.splits)

theorem get_cross_rates_reports_error_witness:
  "get_cross_rates ''DKK'' ''SEK''
       [''DKK'' \<mapsto> \<lparr>Current_Year_Rate = 0, Prev_Year_Rate = 7\<rparr>,
        ''SEK'' \<mapsto> \<lparr>Current_Year_Rate = 10, Prev_Year_Rate = 11\<rparr>]
     = Inl (ZeroDivisionError ''DKK'')
   \<and> returned_tuple (get_cross_rates ''DKK'' ''SEK''
       [''DKK'' \<mapsto> \<lparr>Current_Year_Rate = 0, Prev_Year_Rate = 7\<rparr>,
        ''SEK'' \<mapsto> \<lparr>Current_Year_Rate = 10, Prev_Year_Rate = 11\<rparr>]) = (None, None)
   \<and> get_cross_rates ''DKK'' ''XXX''
       [''DKK'' \<mapsto> \<lparr>Current_Year_Rate = 8, Prev_Year_Rate = 7\<rparr>] = Inl (KeyError ''XXX'')
   \<and> get_cross_rates ''YYY'' ''DKK''
       [''DKK'' \<mapsto> \<lparr>Current_Year_Rate = 8, Prev_Year_Rate = 7\<rparr>] = Inl (KeyError ''YYY'')"
  using get_cross_rates_reports_error
      [of "[''DKK'' \<mapsto> \<lparr>Current_Year_Rate = 0, Prev_Year_Rate = 7\<rparr>,
            ''SEK'' \<mapsto> \<lparr>Current_Year_Rate = 10, Prev_Year_Rate = 11\<rparr>]" "''SEK''" "''DKK''"]
    get_cross_rates_reports_error
      [of "[''DKK'' \<mapsto> \<lparr>Current_Year_Rate = 8, Prev_Year_Rate = 7\<rparr>]" "''XXX''" "''DKK''"]
    get_cross_rates_reports_error
      [of "[''DKK'' \<mapsto> \<lparr>Current_Year_Rate = 8, Prev_Year_Rate = 7\<rparr>]" "''DKK''" "''YYY''"]
  by (simp add: returned_tuple_def)

text \<open>
  C6. For currencies S and T present in the rate map with nonzero rates, the current
  and the prior factor of S to T are each the reciprocal of the factor of T to S, and
  the factors of S to S are both 1.
\<close>

theorem cross_rate_reciprocal:
  assumes "rates_dict S = Some s" and "rates_dict T = Some t"
    and "Current_Year_Rate s \<noteq> 0" and "Prev_Year_Rate s \<noteq> 0"
    and "Current_Year_Rate t \<noteq> 0" and "Prev_Year_Rate t \<noteq> 0"
  shows "get_cross_rates S T rates_dict =
           Inr (Current_Year_Rate t / Current_Year_Rate s, Prev_Year_Rate t / Prev_Year_Rate s)
       \<and> get_cross_rates T S rates_dict =
           Inr (Current_Year_Rate s / Current_Year_Rate t, Prev_Year_Rate s / Prev_Year_Rate t)
       \<and> Current_Year_Rate t / Current_Year_Rate s
           = 1 / (Current_Year_Rate s / Current_Year_Rate t)
       \<and> Prev_Year_Rate t / Prev_Year_Rate s = 1 / (Prev_Year_Rate s / Prev_Year_Rate t)
       \<and> get_cross_rates S S rates_dict = Inr (1, 1)"
  using assms by (simp add: get_cross_rates_def)

theorem cross_rate_reciprocal_witness:
  "get_cross_rates ''DKK'' ''SEK''
       [''DKK'' \<mapsto> \<lparr>Current_Year_Rate = 8, Prev_Year_Rate = 7\<rparr>,
        ''SEK'' \<mapsto> \<lparr>Current_Year_Rate = 10, Prev_Year_Rate = 11\<rparr>] = Inr (10 / 8, 11 / 7)
   \<and> get_cross_rates ''SEK'' ''DKK''
       [''DKK'' \<mapsto> \<lparr>Current_Year_Rate = 8, Prev_Year_Rate = 7\<rparr>,
        ''SEK'' \<mapsto> \<lparr>Current_Year_Rate = 10, Prev_Year_Rate = 11\<rparr>] = Inr (8 / 10, 7 / 11)
   \<and> get_cross_rates ''DKK'' ''DKK''
       [''DKK'' \<mapsto> \<lparr>Current_Year_Rate = 8, Prev_Year_Rate = 7\<rparr>,
        ''SEK'' \<mapsto> \<lparr>Current_Year_Rate = 10, Prev_Year_Rate = 11\<rparr>] = Inr (1, 1)"
  using cross_rate_reciprocal
      [of "[''DKK'' \<mapsto> \<lparr>Current_Year_Rate = 8, Prev_Year_Rate = 7\<rparr>,
            ''SEK'' \<mapsto> \<lparr>Current_Year_Rate = 10, Prev_Year_Rate = 11\<rparr>]"
          "''DKK''" "\<lparr>Current_Year_Rate = 8, Prev_Year_Rate = 7\<rparr>"
          "''SEK''" "\<lparr>Current_Year_Rate = 10, Prev_Year_Rate = 11\<rparr>"]
  by simp

section \<open>Properties of the reconciliation\<close>










subsection \<open>The key universe of the comparison\<close>













subsection \<open>Adjustment rows\<close>




lemma groupby_sum_append:
  "groupby_sum key col (xs @ ys) k = groupby_sum key col xs k + groupby_sum key col ys k"
  by (simp add: groupby_sum_def)









lemma map_of_member: "distinct (map fst hm) \<Longrightarrow> (k, v) \<in> set hm \<Longrightarrow> map_of hm k = Some v"
  by simp




section \<open>Properties of the entity directory\<close>

lemma set_drop_duplicates: "set (drop_duplicates xs) = set xs"
  by (induction xs rule: drop_duplicates.induct) auto

lemma distinct_drop_duplicates: "distinct (drop_duplicates xs)"
  by (induction xs rule: drop_duplicates.induct) (auto simp: set_drop_duplicates)

lemma more_than_one:
  assumes "distinct xs" and "x \<in> set xs"
  shows "(1 < length (filter (\<lambda>y. f y = f x) xs)) = (\<exists>y\<in>set xs. f y = f x \<and> y \<noteq> x)"
proof -
  define S where "S = {y. f y = f x} \<inter> set xs"
  have len: "length (filter (\<lambda>y. f y = f x) xs) = card S"
    unfolding S_def using assms(1) by (rule distinct_length_filter)
  have fin: "finite S" by (simp add: S_def)
  have xin: "x \<in> S" using assms(2) by (simp add: S_def)
  have one: "(card S \<le> Suc 0) = (\<forall>a\<in>S. \<forall>b\<in>S. a = b)"
    using fin by (rule card_le_Suc0_iff_eq)
  have "(\<exists>a\<in>S. \<exists>b\<in>S. a \<noteq> b) = (\<exists>y\<in>S. y \<noteq> x)"
  proof
    assume "\<exists>a\<in>S. \<exists>b\<in>S. a \<noteq> b"
    then obtain a b where ab: "a \<in> S" "b \<in> S" "a \<noteq> b" by blast
    show "\<exists>y\<in>S. y \<noteq> x"
    proof (cases "a = x")
      case True
      then have "b \<noteq> x" using ab(3) by simp
      then show ?thesis using ab(2) by blast
    next
      case False
      then show ?thesis using ab(1) by blast
    qed
  next
    assume "\<exists>y\<in>S. y \<noteq> x"
    then show "\<exists>a\<in>S. \<exists>b\<in>S. a \<noteq> b" using xin by blast
  qed
  then have "(1 < card S) = (\<exists>y\<in>S. y \<noteq> x)"
    using one by auto
  then show ?thesis unfolding len by (auto simp: S_def)
qed

lemma same_key_differs:
  "(fst r' = fst r \<and> r' \<noteq> r) = (fst r' = fst r \<and> snd r' \<noteq> snd r)"
  by (cases r, cases r') auto

lemma duplicated_iff:
  assumes "distinct df"
  shows "r \<in> set (duplicated df) \<longleftrightarrow> r \<in> set df \<and> conflicting df r"
proof (cases "r \<in> set df")
  case False
  then show ?thesis by (simp add: duplicated_def)
next
  case True
  have "(1 < length (filter (\<lambda>r'. fst r' = fst r) df)) = conflicting df r"
    unfolding more_than_one[OF assms True, of fst] conflicting_def same_key_differs ..
  then show ?thesis using True by (simp add: duplicated_def)
qed

lemma no_duplicates_distinct_keys:
  assumes "distinct df" and "duplicated df = []"
  shows "distinct (map fst df)"
proof -
  have none: "\<And>r. r \<in> set df \<Longrightarrow> \<not> conflicting df r"
  proof -
    fix r assume "r \<in> set df"
    have "r \<notin> set (duplicated df)" using assms(2) by simp
    then show "\<not> conflicting df r"
      using duplicated_iff[OF assms(1), of r] \<open>r \<in> set df\<close> by simp
  qed
  have "inj_on fst (set df)"
  proof (rule inj_onI)
    fix a b assume a: "a \<in> set df" and b: "b \<in> set df" and k: "fst a = fst b"
    have "\<not> (fst a = fst b \<and> snd a \<noteq> snd b)"
      using none[OF b] a unfolding conflicting_def by blast
    then have "snd a = snd b" using k by simp
    then show "a = b" using k by (rule prod_eqI[rotated])
  qed
  then show ?thesis using assms(1) by (simp add: distinct_map)
qed

lemma conflicting_drop_duplicates: "conflicting (drop_duplicates df) r = conflicting df r"
  by (simp add: conflicting_def set_drop_duplicates)

lemma set_duplicated_drop:
  "set (duplicated (drop_duplicates df)) = {r \<in> set df. conflicting df r}"
  using duplicated_iff[OF distinct_drop_duplicates, of _ df]
  by (auto simp: set_drop_duplicates conflicting_drop_duplicates)

lemma load_directory_info_cases:
  assumes "\<forall>col \<in> set required_cols. col \<in> set columns"
  shows "load_directory_info (Some (columns, rows)) =
     (if duplicated (drop_duplicates (df_currencies rows)) \<noteq> []
      then Inl (Conflicting_currency_data
                 (sort_key fst (duplicated (drop_duplicates (df_currencies rows)))))
      else Inr (remdups (map (\<lambda>r. astype_str (Comp_No_for_OE r))
                  (filter (\<lambda>r. str_in ''MO'' (astype_str (Entity_Type r))
                             \<or> str_in ''MOPO'' (astype_str (Entity_Type r))) rows)),
                drop_duplicates (df_currencies rows),
                drop_duplicates_on fst (df_map rows)))"
  using assms by (simp add: load_directory_info_def Let_def del: str_in.simps)

text \<open>
  C4. The currency table is the four columns of the directory with incomplete rows
  dropped. When no row conflicts with another (rows of one compound key all have one
  currency pair, so repeated rows are exact duplicates), the load succeeds, the
  duplicates are collapsed into one entry per key, and every row's key maps to the row's
  currency pair. When some row conflicts, the load fails: no directory is returned and the
  error lists exactly the conflicting rows.
\<close>

theorem directory_duplicate_handling:
  assumes "\<forall>col \<in> set required_cols. col \<in> set columns"
  shows "((\<forall>r \<in> set (df_currencies rows). \<not> conflicting (df_currencies rows) r) \<longrightarrow>
           (case load_directory_info (Some (columns, rows)) of
              Inl e \<Rightarrow> False
            | Inr (mo, currency_map, oe_map) \<Rightarrow>
                currency_map = drop_duplicates (df_currencies rows)
              \<and> distinct (map fst currency_map)
              \<and> (\<forall>r \<in> set (df_currencies rows). map_of currency_map (fst r) = Some (snd r))))
       \<and> ((\<exists>r \<in> set (df_currencies rows). conflicting (df_currencies rows) r) \<longrightarrow>
           (case load_directory_info (Some (columns, rows)) of
              Inl (Conflicting_currency_data shown) \<Rightarrow>
                set shown = {r \<in> set (df_currencies rows). conflicting (df_currencies rows) r}
            | _ \<Rightarrow> False))"
proof (intro conjI impI)
  let ?C = "df_currencies rows"
  let ?D = "drop_duplicates ?C"
  assume ok: "\<forall>r \<in> set ?C. \<not> conflicting ?C r"
  then have "set (duplicated ?D) = {}" unfolding set_duplicated_drop by blast
  then have nodup: "duplicated ?D = []" by simp
  have dk: "distinct (map fst ?D)"
    using distinct_drop_duplicates nodup by (rule no_duplicates_distinct_keys)
  have look: "\<forall>r \<in> set ?C. map_of ?D (fst r) = Some (snd r)"
  proof
    fix r assume "r \<in> set ?C"
    then have "(fst r, snd r) \<in> set ?D" by (simp add: set_drop_duplicates)
    then show "map_of ?D (fst r) = Some (snd r)" using dk by (rule map_of_is_SomeI[rotated])
  qed
  show "case load_directory_info (Some (columns, rows)) of
              Inl e \<Rightarrow> False
            | Inr (mo, currency_map, oe_map) \<Rightarrow>
                currency_map = drop_duplicates (df_currencies rows)
              \<and> distinct (map fst currency_map)
              \<and> (\<forall>r \<in> set (df_currencies rows). map_of currency_map (fst r) = Some (snd r))"
    unfolding load_directory_info_cases[OF assms] using nodup dk look by simp
next
  let ?C = "df_currencies rows"
  let ?D = "drop_duplicates ?C"
  assume "\<exists>r \<in> set ?C. conflicting ?C r"
  then have "set (duplicated ?D) \<noteq> {}" unfolding set_duplicated_drop by blast
  then have dup: "duplicated ?D \<noteq> []" by auto
  show "case load_directory_info (Some (columns, rows)) of
              Inl (Conflicting_currency_data shown) \<Rightarrow>
                set shown = {r \<in> set (df_currencies rows). conflicting (df_currencies rows) r}
            | _ \<Rightarrow> False"
    unfolding load_directory_info_cases[OF assms] using dup
    by (simp add: set_duplicated_drop)
qed

theorem directory_duplicate_handling_witness:
  "load_directory_info (Some (required_cols,
      [\<lparr>Comp_No = Some ''5231'', Comp_No_for_OE = Some ''9005'', Entity_Type = Some ''MO'',
         SAP_Comp_Code = Some ''DK01'', Original_Currency = Some ''DKK'',
         Conversion_Currency = Some ''SEK''\<rparr>,
       \<lparr>Comp_No = Some ''5231'', Comp_No_for_OE = Some ''9005'', Entity_Type = Some ''MO'',
         SAP_Comp_Code = Some ''DK01'', Original_Currency = Some ''DKK'',
         Conversion_Currency = Some ''SEK''\<rparr>]))
     = Inr ([''9005''], [((''9005'', ''DK01''), (''DKK'', ''SEK''))], [(''5231'', ''9005'')])
 \<and> load_directory_info (Some (required_cols,
      [\<lparr>Comp_No = Some ''5231'', Comp_No_for_OE = Some ''9005'', Entity_Type = Some ''MO'',
         SAP_Comp_Code = Some ''DK01'', Original_Currency = Some ''DKK'',
         Conversion_Currency = Some ''SEK''\<rparr>,
       \<lparr>Comp_No = Some ''5232'', Comp_No_for_OE = Some ''9005'', Entity_Type = Some ''PO'',
         SAP_Comp_Code = Some ''DK01'', Original_Currency = Some ''EUR'',
         Conversion_Currency = Some ''SEK''\<rparr>]))
     = Inl (Conflicting_currency_data
         [((''9005'', ''DK01''), (''DKK'', ''SEK'')), ((''9005'', ''DK01''), (''EUR'', ''SEK''))])"
proof -
  have same: "load_directory_info (Some (required_cols,
      [\<lparr>Comp_No = Some ''5231'', Comp_No_for_OE = Some ''9005'', Entity_Type = Some ''MO'',
         SAP_Comp_Code = Some ''DK01'', Original_Currency = Some ''DKK'',
         Conversion_Currency = Some ''SEK''\<rparr>,
       \<lparr>Comp_No = Some ''5231'', Comp_No_for_OE = Some ''9005'', Entity_Type = Some ''MO'',
         SAP_Comp_Code = Some ''DK01'', Original_Currency = Some ''DKK'',
         Conversion_Currency = Some ''SEK''\<rparr>]))
     = Inr ([''9005''], [((''9005'', ''DK01''), (''DKK'', ''SEK''))], [(''5231'', ''9005'')])"
    by (simp add: load_directory_info_def required_cols_def astype_str_def duplicated_def
        strip_def is_space_def Let_def)
  have differ: "load_directory_info (Some (required_cols,
      [\<lparr>Comp_No = Some ''5231'', Comp_No_for_OE = Some ''9005'', Entity_Type = Some ''MO'',
         SAP_Comp_Code = Some ''DK01'', Original_Currency = Some ''DKK'',
         Conversion_Currency = Some ''SEK''\<rparr>,
       \<lparr>Comp_No = Some ''5232'', Comp_No_for_OE = Some ''9005'', Entity_Type = Some ''PO'',
         SAP_Comp_Code = Some ''DK01'', Original_Currency = Some ''EUR'',
         Conversion_Currency = Some ''SEK''\<rparr>]))
     = Inl (Conflicting_currency_data
         [((''9005'', ''DK01''), (''DKK'', ''SEK'')), ((''9005'', ''DK01''), (''EUR'', ''SEK''))])"
    by (simp add: load_directory_info_def required_cols_def astype_str_def duplicated_def
        strip_def is_space_def Let_def)
  show ?thesis
    using directory_duplicate_handling [of required_cols
      "[\<lparr>Comp_No = Some ''5231'', Comp_No_for_OE = Some ''9005'', Entity_Type = Some ''MO'',
         SAP_Comp_Code = Some ''DK01'', Original_Currency = Some ''DKK'',
         Conversion_Currency = Some ''SEK''\<rparr>,
       \<lparr>Comp_No = Some ''5231'', Comp_No_for_OE = Some ''9005'', Entity_Type = Some ''MO'',
         SAP_Comp_Code = Some ''DK01'', Original_Currency = Some ''DKK'',
         Conversion_Currency = Some ''SEK''\<rparr>]"]
      directory_duplicate_handling [of required_cols
      "[\<lparr>Comp_No = Some ''5231'', Comp_No_for_OE = Some ''9005'', Entity_Type = Some ''MO'',
         SAP_Comp_Code = Some ''DK01'', Original_Currency = Some ''DKK'',
         Conversion_Currency = Some ''SEK''\<rparr>,
       \<lparr>Comp_No = Some ''5232'', Comp_No_for_OE = Some ''9005'', Entity_Type = Some ''PO'',
         SAP_Comp_Code = Some ''DK01'', Original_Currency = Some ''EUR'',
         Conversion_Currency = Some ''SEK''\<rparr>]"]
    unfolding same differ by (simp add: conflicting_def)
qed

section \<open>Properties of the duplicate removal\<close>

lemma scan_files_append:
  "scan_files R D F (xs @ ys) st = scan_files R D F ys (scan_files R D F xs st)"
proof (induction xs arbitrary: st)
  case Nil
  show ?case by simp
next
  case (Cons x xs)
  obtain cm keep rem where st: "st = (cm, keep, rem)" by (cases st) auto
  show ?case unfolding st by (simp add: Let_def Cons.IH)
qed

lemma scan_files_shape:
  "\<exists>cm' K Rm. scan_files R D F xs (cm, keep, rem) = (cm', keep @ K, rem @ Rm)
      \<and> subseq K xs \<and> subseq Rm xs
      \<and> dom cm' = dom cm \<union> {get_file_content_hash R D (path_join F g) | g.
                                g \<in> set xs \<and> D (path_join F g) \<noteq> None}"
proof (induction xs arbitrary: cm keep rem)
  case Nil
  show ?case by simp
next
  case (Cons x xs)
  let ?p = "path_join F x"
  let ?h = "get_file_content_hash R D ?p"
  show ?case
  proof (cases "D ?p = None")
    case True
    obtain cm' K Rm where IH: "scan_files R D F xs (cm, keep, rem) = (cm', keep @ K, rem @ Rm)"
      "subseq K xs" "subseq Rm xs"
      "dom cm' = dom cm \<union> {get_file_content_hash R D (path_join F g) | g.
                                g \<in> set xs \<and> D (path_join F g) \<noteq> None}"
      using Cons.IH[of cm keep rem] by blast
    have "scan_files R D F (x # xs) (cm, keep, rem) = (cm', keep @ K, rem @ Rm)"
      using True IH(1) by simp
    moreover have "subseq K (x # xs)" "subseq Rm (x # xs)" using IH(2,3) by auto
    moreover have "dom cm' = dom cm \<union> {get_file_content_hash R D (path_join F g) | g.
                                g \<in> set (x # xs) \<and> D (path_join F g) \<noteq> None}"
      unfolding IH(4) using True by auto
    ultimately show ?thesis by blast
  next
    case False
    then obtain c where c: "D ?p = Some c" by auto
    show ?thesis
    proof (cases "cm ?h = None")
      case True
      obtain cm' K Rm where IH:
        "scan_files R D F xs (cm(?h \<mapsto> x), keep @ [x], rem) = (cm', (keep @ [x]) @ K, rem @ Rm)"
        "subseq K xs" "subseq Rm xs"
        "dom cm' = dom (cm(?h \<mapsto> x)) \<union> {get_file_content_hash R D (path_join F g) | g.
                                g \<in> set xs \<and> D (path_join F g) \<noteq> None}"
        using Cons.IH[of "cm(?h \<mapsto> x)" "keep @ [x]" rem] by blast
      have "scan_files R D F (x # xs) (cm, keep, rem) = (cm', keep @ (x # K), rem @ Rm)"
        using True c IH(1) by (simp add: Let_def)
      moreover have "subseq (x # K) (x # xs)" "subseq Rm (x # xs)" using IH(2,3) by auto
      moreover have "dom cm' = dom cm \<union> {get_file_content_hash R D (path_join F g) | g.
                                g \<in> set (x # xs) \<and> D (path_join F g) \<noteq> None}"
        unfolding IH(4) using False by auto
      ultimately show ?thesis by blast
    next
      case inmap: False
      obtain cm' K Rm where IH:
        "scan_files R D F xs (cm, keep, rem @ [x]) = (cm', keep @ K, (rem @ [x]) @ Rm)"
        "subseq K xs" "subseq Rm xs"
        "dom cm' = dom cm \<union> {get_file_content_hash R D (path_join F g) | g.
                                g \<in> set xs \<and> D (path_join F g) \<noteq> None}"
        using Cons.IH[of cm keep "rem @ [x]"] by blast
      have "scan_files R D F (x # xs) (cm, keep, rem) = (cm', keep @ K, rem @ (x # Rm))"
        using inmap c IH(1) by (auto simp: Let_def)
      moreover have "subseq K (x # xs)" "subseq (x # Rm) (x # xs)" using IH(2,3) by auto
      moreover have "dom cm' = dom cm \<union> {get_file_content_hash R D (path_join F g) | g.
                                g \<in> set (x # xs) \<and> D (path_join F g) \<noteq> None}"
        unfolding IH(4) using inmap False by auto
      ultimately show ?thesis by blast
    qed
  qed
qed

lemma remove_files_lookup:
  "remove_files F Rm D p = (if p \<in> path_join F ` set Rm then None else D p)"
  by (induction Rm arbitrary: D) auto

lemma get_file_content_hash_cases:
  "get_file_content_hash R D p = p
   \<or> (\<exists>c h. R p c = Some h \<and> get_file_content_hash R D p = h)"
  by (auto simp: get_file_content_hash_def split: option.splits)

lemma scan_files_at:
  assumes ex: "D (path_join F f) \<noteq> None"
  shows "\<exists>(cm1 :: string \<rightharpoonup> string) K1 R1 (cm3 :: string \<rightharpoonup> string) K3 R3.
      subseq K1 pre \<and> subseq R1 pre \<and> subseq K3 post \<and> subseq R3 post
    \<and> dom cm1 = {get_file_content_hash R D (path_join F g) | g.
                    g \<in> set pre \<and> D (path_join F g) \<noteq> None}
    \<and> scan_files R D F (pre @ f # post) (Map.empty, [], []) =
        (if get_file_content_hash R D (path_join F f) \<in> dom cm1
         then (cm3, K1 @ K3, R1 @ f # R3)
         else (cm3, K1 @ f # K3, R1 @ R3))"
proof -
  let ?h = "get_file_content_hash R D (path_join F f)"
  obtain c where c: "D (path_join F f) = Some c" using ex by auto
  obtain cm1 K1 R1 where one:
    "scan_files R D F pre (Map.empty, [], []) = (cm1, [] @ K1, [] @ R1)"
    "subseq K1 pre" "subseq R1 pre"
    "dom cm1 = dom (Map.empty :: string \<rightharpoonup> string)
        \<union> {get_file_content_hash R D (path_join F g) | g.
                    g \<in> set pre \<and> D (path_join F g) \<noteq> None}"
    using scan_files_shape[of R D F pre Map.empty "[]" "[]"] by blast
  have split: "scan_files R D F (pre @ f # post) (Map.empty, [], [])
      = scan_files R D F (f # post) (cm1, K1, R1)"
    using scan_files_append[of R D F pre "f # post"] one(1) by simp
  have d1: "dom cm1 = {get_file_content_hash R D (path_join F g) | g.
                    g \<in> set pre \<and> D (path_join F g) \<noteq> None}"
    using one(4) by simp
  show ?thesis
  proof (cases "?h \<in> dom cm1")
    case True
    then have nz: "cm1 ?h \<noteq> None" by auto
    obtain cm3 K3 R3 where three:
      "scan_files R D F post (cm1, K1, R1 @ [f]) = (cm3, K1 @ K3, (R1 @ [f]) @ R3)"
      "subseq K3 post" "subseq R3 post"
      using scan_files_shape[of R D F post cm1 K1 "R1 @ [f]"] by blast
    have "scan_files R D F (f # post) (cm1, K1, R1) = (cm3, K1 @ K3, R1 @ f # R3)"
      using nz c three(1) by (auto simp: Let_def)
    then have eq: "scan_files R D F (pre @ f # post) (Map.empty, [], []) =
        (if ?h \<in> dom cm1 then (cm3, K1 @ K3, R1 @ f # R3)
         else (cm3, K1 @ f # K3, R1 @ R3))"
      unfolding split using True by (simp del: scan_files.simps)
    show ?thesis
      by (rule exI[of _ cm1], rule exI[of _ K1], rule exI[of _ R1], rule exI[of _ cm3],
          rule exI[of _ K3], rule exI[of _ R3], intro conjI)
         (rule one(2) one(3) three(2) three(3) d1 eq)+
  next
    case False
    then have z: "cm1 ?h = None" by auto
    obtain cm3 K3 R3 where three:
      "scan_files R D F post (cm1(?h \<mapsto> f), K1 @ [f], R1) = (cm3, (K1 @ [f]) @ K3, R1 @ R3)"
      "subseq K3 post" "subseq R3 post"
      using scan_files_shape[of R D F post "cm1(?h \<mapsto> f)" "K1 @ [f]" R1] by blast
    have "scan_files R D F (f # post) (cm1, K1, R1) = (cm3, K1 @ f # K3, R1 @ R3)"
      using z c three(1) by (simp add: Let_def)
    then have eq: "scan_files R D F (pre @ f # post) (Map.empty, [], []) =
        (if ?h \<in> dom cm1 then (cm3, K1 @ K3, R1 @ f # R3)
         else (cm3, K1 @ f # K3, R1 @ R3))"
      unfolding split using False by (simp del: scan_files.simps)
    show ?thesis
      by (rule exI[of _ cm1], rule exI[of _ K1], rule exI[of _ R1], rule exI[of _ cm3],
          rule exI[of _ K3], rule exI[of _ R3], intro conjI)
         (rule one(2) one(3) three(2) three(3) d1 eq)+
  qed
qed

lemma subseq_member: "subseq xs ys \<Longrightarrow> x \<in> set xs \<Longrightarrow> x \<in> set ys"
  using list_emb_set[of "(=)" xs ys x] by auto

lemma own_path_not_seen:
  fixes read_and_hash :: "string \<Rightarrow> 'c \<Rightarrow> string option" and disk :: "string \<rightharpoonup> 'c"
  assumes paths: "distinct (map (path_join folder) (pre @ f # post))"
    and digests: "\<forall>p c h. read_and_hash p c = Some h
                    \<longrightarrow> h \<notin> set (map (path_join folder) (pre @ f # post))"
    and g: "g \<in> set pre"
  shows "get_file_content_hash read_and_hash disk (path_join folder g) \<noteq> path_join folder f"
proof -
  have "path_join folder f \<notin> path_join folder ` set pre"
    using paths by simp
  then have pg: "path_join folder g \<noteq> path_join folder f"
    using g by (metis imageI)
  have fin: "path_join folder f \<in> set (map (path_join folder) (pre @ f # post))"
    by simp
  from get_file_content_hash_cases[of read_and_hash disk "path_join folder g"]
  show ?thesis
  proof
    assume "get_file_content_hash read_and_hash disk (path_join folder g) = path_join folder g"
    then show ?thesis using pg by simp
  next
    assume "\<exists>c h. read_and_hash (path_join folder g) c = Some h
        \<and> get_file_content_hash read_and_hash disk (path_join folder g) = h"
    then obtain c h where h: "read_and_hash (path_join folder g) c = Some h"
      "get_file_content_hash read_and_hash disk (path_join folder g) = h" by blast
    have "h \<notin> set (map (path_join folder) (pre @ f # post))" using digests h(1) by blast
    then show ?thesis using fin h(2) by metis
  qed
qed


text \<open>
  C10 as the code has it, for a list whose file paths are pairwise different and none of
  which is itself a content digest. The returned list is a subsequence of the input. A
  listed file that is on the disk is kept exactly when no earlier listed file on the disk
  has its content hash, so of the files with one hash the first is kept; a listed file on
  the disk that is not kept is deleted from the disk. A file whose hash is its own path
  (it is neither CSV nor XLSX, or it cannot be read or hashed) is kept.
\<close>

theorem first_occurrence_kept:
  fixes read_and_hash :: "string \<Rightarrow> 'c \<Rightarrow> string option" and disk :: "string \<rightharpoonup> 'c"
  assumes paths: "distinct (map (path_join folder) processed_files)"
    and digests: "\<forall>p c h. read_and_hash p c = Some h
                    \<longrightarrow> h \<notin> set (map (path_join folder) processed_files)"
    and at: "processed_files = pre @ f # post"
    and ex: "disk (path_join folder f) \<noteq> None"
  shows "subseq (fst (remove_duplicate_files read_and_hash disk folder processed_files))
            processed_files
    \<and> (f \<in> set (fst (remove_duplicate_files read_and_hash disk folder processed_files))
         \<longleftrightarrow> (\<forall>g \<in> set pre. disk (path_join folder g) \<noteq> None \<longrightarrow>
                get_file_content_hash read_and_hash disk (path_join folder g)
                  \<noteq> get_file_content_hash read_and_hash disk (path_join folder f)))
    \<and> (f \<notin> set (fst (remove_duplicate_files read_and_hash disk folder processed_files))
         \<longrightarrow> snd (remove_duplicate_files read_and_hash disk folder processed_files)
               (path_join folder f) = None)
    \<and> (get_file_content_hash read_and_hash disk (path_join folder f) = path_join folder f
         \<longrightarrow> f \<in> set (fst (remove_duplicate_files read_and_hash disk folder processed_files)))"
proof -
  define key where "key = (\<lambda>g. get_file_content_hash read_and_hash disk (path_join folder g))"
  define present where "present = (\<lambda>g. disk (path_join folder g) \<noteq> None)"
  define result where "result = remove_duplicate_files read_and_hash disk folder processed_files"
  obtain cm1 :: "string \<rightharpoonup> string" and K1 R1 and cm3 :: "string \<rightharpoonup> string" and K3 R3
    where sub: "subseq K1 pre" "subseq R1 pre" "subseq K3 post" "subseq R3 post"
      and d1: "dom cm1 = {get_file_content_hash read_and_hash disk (path_join folder g) | g.
                            g \<in> set pre \<and> disk (path_join folder g) \<noteq> None}"
      and scan: "scan_files read_and_hash disk folder (pre @ f # post) (Map.empty, [], []) =
        (if get_file_content_hash read_and_hash disk (path_join folder f) \<in> dom cm1
         then (cm3, K1 @ K3, R1 @ f # R3)
         else (cm3, K1 @ f # K3, R1 @ R3))"
    using scan_files_at[where D = disk and F = folder and f = f and R = read_and_hash
        and pre = pre and post = post, OF ex] by (elim exE conjE) (rule that)
  have names: "distinct processed_files" using paths by (simp add: distinct_map)
  have fpre: "f \<notin> set pre" and fpost: "f \<notin> set post"
    using names unfolding at by simp_all
  have notK: "f \<notin> set K1" "f \<notin> set K3"
    using subseq_member[OF sub(1), of f] subseq_member[OF sub(3), of f] fpre fpost by blast+
  have seen: "(key f \<in> dom cm1) = (\<exists>g \<in> set pre. present g \<and> key g = key f)"
    unfolding d1 key_def present_def mem_Collect_eq Bex_def by (rule iffI; elim exE conjE; intro exI conjI; simp)
  have own: "key f = path_join folder f \<Longrightarrow> key f \<notin> dom cm1"
  proof -
    assume own_path: "key f = path_join folder f"
    have "\<And>g. g \<in> set pre \<Longrightarrow> key g \<noteq> key f"
    proof -
      fix g assume g: "g \<in> set pre"
      have "key g \<noteq> path_join folder f"
        unfolding key_def
        by (rule own_path_not_seen[OF paths[unfolded at] digests[unfolded at] g])
      then show "key g \<noteq> key f" using own_path by simp
    qed
    then have "\<not> (\<exists>g \<in> set pre. present g \<and> key g = key f)" by auto
    then show "key f \<notin> dom cm1" unfolding seen .
  qed
  have A: "key f \<in> dom cm1 \<Longrightarrow>
      result = (K1 @ K3, remove_files folder (R1 @ f # R3) disk)"
    unfolding result_def remove_duplicate_files_def at scan key_def by simp
  have B: "key f \<notin> dom cm1 \<Longrightarrow>
      fst result = (if R1 @ R3 = [] then pre @ f # post else K1 @ f # K3)"
    unfolding result_def remove_duplicate_files_def at scan key_def by simp
  have "subseq K3 (f # post)" using sub(3) by (rule list_emb_Cons)
  then have sA: "subseq (K1 @ K3) (pre @ f # post)"
    by (rule list_emb_append_mono[OF sub(1)])
  have "subseq (f # K3) (f # post)" using sub(3) by simp
  then have sB: "subseq (K1 @ f # K3) (pre @ f # post)"
    by (rule list_emb_append_mono[OF sub(1)])
  have gone: "remove_files folder (R1 @ f # R3) disk (path_join folder f) = None"
    unfolding remove_files_lookup by simp
  have c1: "subseq (fst result) processed_files"
  proof (cases "key f \<in> dom cm1")
    case True
    show ?thesis unfolding A[OF True] at using sA by simp
  next
    case False
    show ?thesis unfolding B[OF False] at using sB by simp
  qed
  have c2: "(f \<in> set (fst result)) = (key f \<notin> dom cm1)"
  proof (cases "key f \<in> dom cm1")
    case True
    show ?thesis unfolding A[OF True] using True notK by simp
  next
    case False
    show ?thesis unfolding B[OF False] using False by simp
  qed
  have c3: "f \<notin> set (fst result) \<longrightarrow> snd result (path_join folder f) = None"
  proof
    assume "f \<notin> set (fst result)"
    then have T: "key f \<in> dom cm1" using c2 by simp
    show "snd result (path_join folder f) = None" unfolding A[OF T] using gone by simp
  qed
  have c4: "key f = path_join folder f \<longrightarrow> f \<in> set (fst result)"
    using own c2 by blast
  have c2': "(f \<in> set (fst result)) = (\<forall>g \<in> set pre. present g \<longrightarrow> key g \<noteq> key f)"
    unfolding c2 seen by blast
  show ?thesis
    using c1 c2' c3 c4 unfolding result_def key_def present_def by blast
qed

theorem first_occurrence_kept_witness:
  "fst (remove_duplicate_files (\<lambda>p c. Some (''md5:'' @ c))
          [''out/a.csv'' \<mapsto> ''1'', ''out/b.csv'' \<mapsto> ''1'', ''out/c.bin'' \<mapsto> ''1'',
           ''out/d.csv'' \<mapsto> ''2'']
          ''out'' [''a.csv'', ''b.csv'', ''c.bin'', ''d.csv''])
     = [''a.csv'', ''c.bin'', ''d.csv'']
 \<and> snd (remove_duplicate_files (\<lambda>p c. Some (''md5:'' @ c))
          [''out/a.csv'' \<mapsto> ''1'', ''out/b.csv'' \<mapsto> ''1'', ''out/c.bin'' \<mapsto> ''1'',
           ''out/d.csv'' \<mapsto> ''2'']
          ''out'' [''a.csv'', ''b.csv'', ''c.bin'', ''d.csv'']) ''out/b.csv'' = None"
proof -
  have run: "remove_duplicate_files (\<lambda>p c. Some (''md5:'' @ c))
          [''out/a.csv'' \<mapsto> ''1'', ''out/b.csv'' \<mapsto> ''1'', ''out/c.bin'' \<mapsto> ''1'',
           ''out/d.csv'' \<mapsto> ''2'']
          ''out'' [''a.csv'', ''b.csv'', ''c.bin'', ''d.csv'']
      = ([''a.csv'', ''c.bin'', ''d.csv''],
         [''out/a.csv'' \<mapsto> ''1'', ''out/b.csv'' \<mapsto> ''1'', ''out/c.bin'' \<mapsto> ''1'',
          ''out/d.csv'' \<mapsto> ''2''](''out/b.csv'' := None))"
    by (simp add: remove_duplicate_files_def path_join_def ends_with_def
        get_file_content_hash_def Let_def)
  have paths: "distinct (map (path_join ''out'') [''a.csv'', ''b.csv'', ''c.bin'', ''d.csv''])"
    by (simp add: path_join_def ends_with_def)
  have digests: "\<forall>p c h. (\<lambda>p c. Some (''md5:'' @ c)) p (c :: string) = Some h
      \<longrightarrow> h \<notin> set (map (path_join ''out'') [''a.csv'', ''b.csv'', ''c.bin'', ''d.csv''])"
    by (auto simp: path_join_def ends_with_def)
  have at: "[''a.csv'', ''b.csv'', ''c.bin'', ''d.csv''] = [''a.csv''] @ ''b.csv'' # [''c.bin'', ''d.csv'']"
    by simp
  have ex: "[''out/a.csv'' \<mapsto> ''1'', ''out/b.csv'' \<mapsto> ''1'', ''out/c.bin'' \<mapsto> ''1'',
           ''out/d.csv'' \<mapsto> ''2''] (path_join ''out'' ''b.csv'') \<noteq> None"
    by (simp add: path_join_def ends_with_def)
  note kept = first_occurrence_kept
      [where read_and_hash = "\<lambda>p c. Some (''md5:'' @ c)"
         and disk = "[''out/a.csv'' \<mapsto> ''1'', ''out/b.csv'' \<mapsto> ''1'',
                      ''out/c.bin'' \<mapsto> ''1'', ''out/d.csv'' \<mapsto> ''2'']"
         and folder = "''out''"
         and processed_files = "[''a.csv'', ''b.csv'', ''c.bin'', ''d.csv'']"
         and pre = "[''a.csv'']" and f = "''b.csv''" and post = "[''c.bin'', ''d.csv'']",
       OF paths digests at ex]
  show ?thesis
    using kept unfolding run by simp
qed

text \<open>
  The claim as stated fails for a list that names a file twice: the file \<^verbatim>\<open>x.bin\<close> is
  not hashed, its path stands in for the hash, and yet its second occurrence is removed as
  a duplicate and the file is deleted from the disk.
\<close>

theorem repeated_name_counterexample:
  "get_file_content_hash (\<lambda>p c. Some (''md5:'' @ c)) [''out/x.bin'' \<mapsto> ''1''] ''out/x.bin''
     = ''out/x.bin''
 \<and> remove_duplicate_files (\<lambda>p c. Some (''md5:'' @ c)) [''out/x.bin'' \<mapsto> ''1'']
       ''out'' [''x.bin'', ''x.bin'']
     = ([''x.bin''], [''out/x.bin'' \<mapsto> ''1''](''out/x.bin'' := None))"
  by (simp add: remove_duplicate_files_def path_join_def ends_with_def
      get_file_content_hash_def Let_def)

end
